theory Spec2Isabelle
  imports Main
begin

section \<open>The pointer-interaction controller of the display widget (src/src/dispwidget.cc)\<close>

subsection \<open>Data model\<close>

text \<open>
  A pixel position (\<open>QPoint\<close>, \<open>CHtmlPoint\<close>) is a pair of integers. Links
  (\<open>CHtmlDispLink*\<close>) and display objects (\<open>CHtmlDisp*\<close>) are owned by the formatter;
  the widget only holds their addresses, so they are modelled as addresses, and a null
  pointer is \<open>None\<close>.
\<close>

type_synonym point = "int \<times> int"
type_synonym link = nat
type_synonym disp = nat

text \<open>The three values \<open>set_clicked\<close> is called with.\<close>

datatype link_mode = CHtmlDispLink_none | CHtmlDispLink_clicked | CHtmlDispLink_hover

datatype cursor_shape = ArrowCursor | PointingHandCursor

text \<open>
  One call of \<open>processCommand(cmd, strlen(cmd), append, enter, OS_CMD_NONE)\<close> on the game
  window.
\<close>

record command =
  cmd_text :: string
  cmd_len :: nat
  cmd_append :: bool
  cmd_enter :: bool

text \<open>
  What the widget reads and never writes while it handles one event: the answers of the
  formatter (\<open>find_by_pos\<close>, \<open>find_textofs_by_pos\<close>, \<open>get_text_ofs_max\<close>), of a display
  object (\<open>get_link\<close>, \<open>get_alt_text\<close>, a null \<open>char*\<close> being \<open>None\<close>), of a link
  (\<open>is_clickable_link\<close>, \<open>href_.get_url\<close>, \<open>get_append\<close>, \<open>get_noenter\<close>), the two
  settings, and the global cursor position mapped into the widget
  (\<open>mapFromGlobal(QCursor::pos())\<close>).
\<close>

record env =
  find_by_pos :: "point \<Rightarrow> disp option"
  get_link :: "disp \<Rightarrow> point \<Rightarrow> link option"
  get_alt_text :: "disp \<Rightarrow> string option"
  find_textofs_by_pos :: "point \<Rightarrow> nat"
  get_text_ofs_max :: nat
  is_clickable_link :: "link \<Rightarrow> bool"
  get_url :: "link \<Rightarrow> string"
  get_append :: "link \<Rightarrow> bool"
  get_noenter :: "link \<Rightarrow> bool"
  enableLinks :: bool
  highlightLinks :: bool
  cursor_pos :: point

text \<open>
  What the handlers write: the four fields of \<open>DisplayWidget\<close>, the visual mode of every
  link object (\<open>clicked\<close>, the links' \<open>clicked_\<close> fields indexed by address), the cursor
  shape of the widget, the message of the status bar (empty when cleared), and the calls made so
  far to \<open>set_sel_range\<close> on the formatter, to \<open>processCommand\<close> on the game window and
  to \<open>set_clicked\<close> on the links (the link and the mode of each call), oldest first.
\<close>

record state =
  fHoverLink :: "link option"
  fClickedLink :: "link option"
  fInSelectMode :: bool
  fSelectOrigin :: point
  clicked :: "link \<Rightarrow> link_mode"
  cursor :: cursor_shape
  status_msg :: string
  sel_ranges :: "(nat \<times> nat) list"
  commands :: "command list"
  set_clicked_calls :: "(link \<times> link_mode) list"

text \<open>
  The state the constructor leaves: no hover, no armed link, not selecting, origin the
  null point; no link highlighted, the default cursor, an empty status bar, nothing sent.
\<close>

definition init_state :: state where
  "init_state = \<lparr> fHoverLink = None, fClickedLink = None, fInSelectMode = False,
     fSelectOrigin = (0, 0), clicked = (\<lambda>_. CHtmlDispLink_none), cursor = ArrowCursor,
     status_msg = [], sel_ranges = [], commands = [], set_clicked_calls = [] \<rparr>"

subsection \<open>The collaborators' mutators\<close>

text \<open>
  Modelled from the spec: \<open>CHtmlDispLink::set_clicked\<close> is declared in htmldisp.h, which
  is not among the sources. The spec calls it the single mutator of the link's tri-state
  visual mode: it stores the given mode in the link. Every call is logged, whether or not
  it changes the mode.
\<close>

definition set_clicked :: "link \<Rightarrow> link_mode \<Rightarrow> state \<Rightarrow> state" where
  "set_clicked l m s =
     s\<lparr> clicked := (clicked s)(l := m), set_clicked_calls := set_clicked_calls s @ [(l, m)] \<rparr>"

text \<open>\<open>QWidget::setCursor\<close> and \<open>QWidget::unsetCursor\<close>.\<close>

definition setCursor :: "cursor_shape \<Rightarrow> state \<Rightarrow> state" where
  "setCursor c s = s\<lparr> cursor := c \<rparr>"

definition unsetCursor :: "state \<Rightarrow> state" where
  "unsetCursor s = s\<lparr> cursor := ArrowCursor \<rparr>"

text \<open>
  \<open>statusBar()->clearMessage()\<close> and \<open>statusBar()->showMessage(..)\<close>, each between
  \<open>setUpdatesEnabled(false)\<close> and \<open>setUpdatesEnabled(true)\<close>.
\<close>

definition clearMessage :: "state \<Rightarrow> state" where
  "clearMessage s = s\<lparr> status_msg := [] \<rparr>"

definition showMessage :: "string \<Rightarrow> state \<Rightarrow> state" where
  "showMessage m s = s\<lparr> status_msg := m \<rparr>"

text \<open>\<open>formatter->set_sel_range(start, end)\<close>.\<close>

definition set_sel_range :: "nat \<Rightarrow> nat \<Rightarrow> state \<Rightarrow> state" where
  "set_sel_range a b s = s\<lparr> sel_ranges := sel_ranges s @ [(a, b)] \<rparr>"

text \<open>\<open>qFrame->gameWindow()->processCommand(cmd, strlen(cmd), append, enter, OS_CMD_NONE)\<close>.\<close>

definition processCommand :: "string \<Rightarrow> nat \<Rightarrow> bool \<Rightarrow> bool \<Rightarrow> state \<Rightarrow> state" where
  "processCommand c n a e s =
     s\<lparr> commands := commands s @ [\<lparr> cmd_text = c, cmd_len = n, cmd_append = a, cmd_enter = e \<rparr>] \<rparr>"

subsection \<open>The handlers\<close>

text \<open>\<open>DisplayWidget::fInvalidateLinkTracking\<close> (lines 48-64).\<close>

definition fInvalidateLinkTracking :: "state \<Rightarrow> state" where
  "fInvalidateLinkTracking s =
    (let s1 = (case fClickedLink s of
                 None \<Rightarrow> s
               | Some c \<Rightarrow> (set_clicked c CHtmlDispLink_none s)\<lparr> fClickedLink := None \<rparr>);
         s2 = (case fHoverLink s1 of
                 None \<Rightarrow> s1
               | Some h \<Rightarrow> (set_clicked h CHtmlDispLink_none s1)\<lparr> fHoverLink := None \<rparr>)
     in clearMessage (unsetCursor s2))"

text \<open>\<open>QPoint::isNull\<close>: both coordinates are zero.\<close>

definition isNull :: "point \<Rightarrow> bool" where
  "isNull p = (fst p = 0 \<and> snd p = 0)"

text \<open>
  The position \<open>updateLinkTracking\<close> looks up (lines 168-176): the given one, or the
  global cursor position when the given one is the null point.
\<close>

definition docPos :: "env \<Rightarrow> point \<Rightarrow> point" where
  "docPos e mousePos = (if isNull mousePos then cursor_pos e else mousePos)"

text \<open>
  The end of \<open>updateLinkTracking\<close> (lines 240-249): clear the status bar, reset the
  cursor, forget the hovered link.
\<close>

definition forget_tracking :: "state \<Rightarrow> state" where
  "forget_tracking s =
    (let s1 = unsetCursor (clearMessage s)
     in case fHoverLink s1 of
          None \<Rightarrow> s1
        | Some h \<Rightarrow> (set_clicked h CHtmlDispLink_none s1)\<lparr> fHoverLink := None \<rparr>)"

text \<open>
  Lines 203-210 of \<open>updateLinkTracking\<close>: the link found is not the hovered one, so the
  previous hover, if any, goes back to no highlight and the link found (null or not) is
  the hovered one from now on.
\<close>

definition switch_hover :: "link option \<Rightarrow> state \<Rightarrow> state" where
  "switch_hover lnk s =
    (case fHoverLink s of
       None \<Rightarrow> s
     | Some h \<Rightarrow> set_clicked h CHtmlDispLink_none s)
    \<lparr> fHoverLink := lnk \<rparr>"

text \<open>
  Lines 212-220: a clickable link gets the pointing-hand cursor, and the hover highlight
  when highlighting is on and no link is click-tracked.
\<close>

definition mark_clickable :: "env \<Rightarrow> link option \<Rightarrow> state \<Rightarrow> state" where
  "mark_clickable e lnk s =
    (case lnk of
       None \<Rightarrow> s
     | Some l \<Rightarrow>
         if is_clickable_link e l then
           (let s' = setCursor PointingHandCursor s
            in if highlightLinks e \<and> fClickedLink s' = None
               then set_clicked l CHtmlDispLink_hover s'
               else s')
         else s)"

text \<open>
  Lines 222-249: the ALT text of the object when it has one that is not empty, else the
  URL of a clickable link, else the end of the function (\<open>forget_tracking\<close>).
\<close>

definition status_feedback :: "env \<Rightarrow> disp \<Rightarrow> link option \<Rightarrow> state \<Rightarrow> state" where
  "status_feedback e d lnk s =
    (case get_alt_text e d of
       Some (c # cs) \<Rightarrow> showMessage (c # cs) s
     | _ \<Rightarrow>
        (case lnk of
           Some l \<Rightarrow>
             if is_clickable_link e l then showMessage (get_url e l) s
             else forget_tracking s
         | None \<Rightarrow> forget_tracking s))"

text \<open>\<open>DisplayWidget::updateLinkTracking\<close> (lines 164-250).\<close>

definition updateLinkTracking :: "env \<Rightarrow> point \<Rightarrow> state \<Rightarrow> state" where
  "updateLinkTracking e mousePos s =
    (let p = docPos e mousePos in
     case find_by_pos e p of
       None \<Rightarrow>
         (case fHoverLink s of
            None \<Rightarrow> s
          | Some h \<Rightarrow>
              clearMessage (unsetCursor
                ((set_clicked h CHtmlDispLink_none s)\<lparr> fHoverLink := None \<rparr>)))
     | Some d \<Rightarrow>
         if enableLinks e then
           (let lnk = get_link e d p in
            if lnk = fHoverLink s then s
            else status_feedback e d lnk (mark_clickable e lnk (switch_hover lnk s)))
         else forget_tracking s)"

text \<open>
  \<open>DisplayWidget::mouseMoveEvent\<close> (lines 79-95). \<open>left\<close> is
  \<open>e->buttons() & Qt::LeftButton\<close>, \<open>pos\<close> is \<open>e->pos()\<close>.
\<close>

definition mouseMoveEvent :: "env \<Rightarrow> bool \<Rightarrow> point \<Rightarrow> state \<Rightarrow> state" where
  "mouseMoveEvent e left pos s =
    (if left \<and> fInSelectMode s then
       set_sel_range (find_textofs_by_pos e (fSelectOrigin s)) (find_textofs_by_pos e pos) s
     else updateLinkTracking e pos s)"

text \<open>\<open>DisplayWidget::leaveEvent\<close> (lines 98-102).\<close>

definition leaveEvent :: "state \<Rightarrow> state" where
  "leaveEvent s = fInvalidateLinkTracking s"

text \<open>\<open>DisplayWidget::mousePressEvent\<close> (lines 105-129).\<close>

definition mousePressEvent :: "env \<Rightarrow> bool \<Rightarrow> point \<Rightarrow> state \<Rightarrow> state" where
  "mousePressEvent e left pos s =
    (case fHoverLink s of
       None \<Rightarrow>
         if left \<and> \<not> fInSelectMode s then
           set_sel_range (get_text_ofs_max e) (get_text_ofs_max e)
             (s\<lparr> fInSelectMode := True, fSelectOrigin := pos \<rparr>)
         else s
     | Some h \<Rightarrow>
         if is_clickable_link e h \<and> enableLinks e then
           (set_clicked h CHtmlDispLink_clicked s)\<lparr> fClickedLink := Some h \<rparr>
         else s)"

text \<open>\<open>DisplayWidget::mouseReleaseEvent\<close> (lines 132-161).\<close>

definition mouseReleaseEvent :: "env \<Rightarrow> state \<Rightarrow> state" where
  "mouseReleaseEvent e s =
    (if fInSelectMode s then s\<lparr> fInSelectMode := False \<rparr>
     else case fClickedLink s of
       None \<Rightarrow> s
     | Some c \<Rightarrow>
         (let s1 =
            (if fClickedLink s = fHoverLink s then
               (let s' = processCommand (get_url e c) (length (get_url e c)) (get_append e c)
                           (\<not> get_noenter e c) s
                in if highlightLinks e then set_clicked c CHtmlDispLink_hover s' else s')
             else case fHoverLink s of
                    None \<Rightarrow> s
                  | Some h \<Rightarrow> set_clicked h CHtmlDispLink_hover s)
          in s1\<lparr> fClickedLink := None \<rparr>))"

subsection \<open>Event sequences\<close>

text \<open>
  The pointer events the host delivers. A move and a press carry whether the primary
  button is among the buttons held and the pointer position.
\<close>

datatype event = Move bool point | Leave | Press bool point | Release

fun step :: "env \<Rightarrow> event \<Rightarrow> state \<Rightarrow> state" where
  "step e (Move left pos) s = mouseMoveEvent e left pos s"
| "step e Leave s = leaveEvent s"
| "step e (Press left pos) s = mousePressEvent e left pos s"
| "step e Release s = mouseReleaseEvent e s"

text \<open>
  A run handles the events in arrival order. Each event comes with the environment it is
  handled in, so the layout and the settings may change between two events.
\<close>

fun run :: "(env \<times> event) list \<Rightarrow> state \<Rightarrow> state" where
  "run [] s = s"
| "run ((e, ev) # evs) s = run evs (step e ev s)"

text \<open>The link the layout reports under a position, if any.\<close>

definition link_at :: "env \<Rightarrow> point \<Rightarrow> link option" where
  "link_at e pos =
    (case find_by_pos e (docPos e pos) of
       None \<Rightarrow> None
     | Some d \<Rightarrow> get_link e d (docPos e pos))"

subsection \<open>Notions used by the properties\<close>

text \<open>
  The two tests \<open>updateLinkTracking\<close> makes on what it found: the object has an ALT
  text that is not empty (line 223), the link is not null and clickable (lines 214, 232).
\<close>

definition has_alt :: "env \<Rightarrow> disp \<Rightarrow> bool" where
  "has_alt e d = (case get_alt_text e d of Some (c # cs) \<Rightarrow> True | _ \<Rightarrow> False)"

definition clickable :: "env \<Rightarrow> link option \<Rightarrow> bool" where
  "clickable e lnk = (case lnk of Some l \<Rightarrow> is_clickable_link e l | None \<Rightarrow> False)"

text \<open>The status text shown for a clickable link on a display object.\<close>

definition feedback_text :: "env \<Rightarrow> disp \<Rightarrow> link \<Rightarrow> string" where
  "feedback_text e d l = (case get_alt_text e d of Some (c # cs) \<Rightarrow> c # cs | _ \<Rightarrow> get_url e l)"

text \<open>The \<open>processCommand\<close> call that activates a link.\<close>

definition link_command :: "env \<Rightarrow> link \<Rightarrow> command" where
  "link_command e l =
    \<lparr> cmd_text = get_url e l, cmd_len = length (get_url e l), cmd_append = get_append e l,
      cmd_enter = (\<not> get_noenter e l) \<rparr>"

text \<open>
  The invariant of the link store: a link that is not in mode \<open>none\<close> is the hovered
  link, and while a link is click-tracked no link is in mode \<open>hover\<close>.
\<close>

definition tracked_only :: "state \<Rightarrow> bool" where
  "tracked_only s = (\<forall>l. clicked s l \<noteq> CHtmlDispLink_none \<longrightarrow> fHoverLink s = Some l)"

definition armed_no_hover :: "state \<Rightarrow> bool" where
  "armed_no_hover s =
    (fClickedLink s \<noteq> None \<longrightarrow> (\<forall>l. clicked s l \<noteq> CHtmlDispLink_hover))"

definition link_inv :: "state \<Rightarrow> bool" where
  "link_inv s = (tracked_only s \<and> armed_no_hover s)"

text \<open>
  A small document for concrete runs: link 1 (``north'') on object 1 at (10,10), link 2
  (``south'', no auto-enter) on object 2 at (20,20), a picture with ALT text ``map'' and
  no link at (30,30), plain text at (40,40), nothing elsewhere. Both links are clickable.
  The two arguments are the settings \<open>enableLinks\<close> and \<open>highlightLinks\<close>.
\<close>

definition sample_env :: "bool \<Rightarrow> bool \<Rightarrow> env" where
  "sample_env en hl =
    \<lparr> find_by_pos = (\<lambda>p. if p = (10, 10) then Some 1 else if p = (20, 20) then Some 2
                          else if p = (30, 30) then Some 3 else if p = (40, 40) then Some 4
                          else None),
      get_link = (\<lambda>d p. if d = 1 then Some 1 else if d = 2 then Some 2 else None),
      get_alt_text = (\<lambda>d. if d = 3 then Some ''map'' else None),
      find_textofs_by_pos = (\<lambda>p. nat (fst p)),
      get_text_ofs_max = 100,
      is_clickable_link = (\<lambda>l. True),
      get_url = (\<lambda>l. if l = 1 then ''north'' else ''south''),
      get_append = (\<lambda>l. False),
      get_noenter = (\<lambda>l. l = 2),
      enableLinks = en,
      highlightLinks = hl,
      cursor_pos = (0, 0) \<rparr>"

text \<open>
  Two runs on the sample document from the initial state: the pointer moves onto link 1
  and the primary button goes down there (the argument is \<open>highlightLinks\<close>); the pointer
  moves onto link 1 with highlighting on.
\<close>

definition armed_run :: "bool \<Rightarrow> (env \<times> event) list" where
  "armed_run hl =
    [(sample_env True hl, Move False (10, 10)), (sample_env True hl, Press True (10, 10))]"

definition hover_run :: "(env \<times> event) list" where
  "hover_run = [(sample_env True True, Move False (10, 10))]"


text \<open>
  A sequence of events in which every move that arrives while the widget is in selection
  mode has the primary button among the buttons held (checked along the run from \<open>s\<close>).
\<close>

fun drag_moves_held :: "(env \<times> event) list \<Rightarrow> state \<Rightarrow> bool" where
  "drag_moves_held [] s = True"
| "drag_moves_held ((e, ev) # evs) s =
     ((case ev of Move left p \<Rightarrow> \<not> fInSelectMode s \<or> left | _ \<Rightarrow> True) \<and>
      drag_moves_held evs (step e ev s))"

text \<open>
  More runs on the sample document. Link 1 is armed, the pointer is dragged off to empty
  space and a second press with the primary button held arrives there. A press on plain
  text, then a move onto link 1 without the button. A press on plain text, then a move
  onto link 1 with the button held. A move, a press and a release on link 1 with link
  following off.
\<close>

definition select_armed_run :: "(env \<times> event) list" where
  "select_armed_run =
    [(sample_env True True, Move False (10, 10)), (sample_env True True, Press True (10, 10)),
     (sample_env True True, Move True (50, 50)), (sample_env True True, Press True (50, 50))]"

definition select_hover_run :: "(env \<times> event) list" where
  "select_hover_run =
    [(sample_env True True, Press True (40, 40)), (sample_env True True, Move False (10, 10))]"

definition select_drag_run :: "(env \<times> event) list" where
  "select_drag_run =
    [(sample_env True True, Press True (40, 40)), (sample_env True True, Move True (10, 10))]"


text \<open>
  The calls of \<open>set_clicked\<close> that a second refresh at the same position repeats after a
  first one from state \<open>s\<close>: one call, mode \<open>none\<close>, for a link that is not clickable, on
  an object without ALT text, with link following on, when that link was not the hovered
  link before the first refresh (lines 203-210 make it the hovered link and lines 246-249
  drop it again, each time); no call otherwise.
\<close>

definition repeated_calls :: "env \<Rightarrow> point \<Rightarrow> state \<Rightarrow> (link \<times> link_mode) list" where
  "repeated_calls e mousePos s =
    (case find_by_pos e (docPos e mousePos) of
       None \<Rightarrow> []
     | Some d \<Rightarrow>
        (case get_link e d (docPos e mousePos) of
           None \<Rightarrow> []
         | Some l \<Rightarrow>
             if enableLinks e \<and> \<not> has_alt e d \<and> \<not> is_clickable_link e l \<and>
                fHoverLink s \<noteq> Some l
             then [(l, CHtmlDispLink_none)]
             else []))"

text \<open>
  The sample document with one more object: object 5 at (60,60) carries link 3, an
  anchor that is not clickable, and has no ALT text.
\<close>

definition anchor_env :: env where
  "anchor_env = (sample_env True True)
    \<lparr> find_by_pos := (\<lambda>p. if p = (60, 60) then Some 5
                          else find_by_pos (sample_env True True) p),
      get_link := (\<lambda>d p. if d = 5 then Some 3 else get_link (sample_env True True) d p),
      is_clickable_link := (\<lambda>l. l \<noteq> 3) \<rparr>"

section \<open>Properties\<close>

subsection \<open>The branches of link tracking\<close>

lemmas mutator_defs = set_clicked_def setCursor_def unsetCursor_def clearMessage_def
  showMessage_def set_sel_range_def processCommand_def

lemmas inv_defs = link_inv_def tracked_only_def armed_no_hover_def

lemma ult_no_object:
  "find_by_pos e (docPos e p) = None \<Longrightarrow>
   updateLinkTracking e p s =
     (case fHoverLink s of
        None \<Rightarrow> s
      | Some h \<Rightarrow> clearMessage (unsetCursor
                ((set_clicked h CHtmlDispLink_none s)\<lparr> fHoverLink := None \<rparr>)))"
  by (simp add: updateLinkTracking_def)

lemma ult_links_disabled:
  "find_by_pos e (docPos e p) = Some d \<Longrightarrow> \<not> enableLinks e \<Longrightarrow>
   updateLinkTracking e p s = forget_tracking s"
  by (simp add: updateLinkTracking_def)

lemma ult_same_link:
  "find_by_pos e (docPos e p) = Some d \<Longrightarrow> enableLinks e \<Longrightarrow>
   get_link e d (docPos e p) = fHoverLink s \<Longrightarrow>
   updateLinkTracking e p s = s"
  by (simp add: updateLinkTracking_def)

lemma ult_new_link:
  "find_by_pos e (docPos e p) = Some d \<Longrightarrow> enableLinks e \<Longrightarrow>
   get_link e d (docPos e p) = lnk \<Longrightarrow> lnk \<noteq> fHoverLink s \<Longrightarrow>
   updateLinkTracking e p s =
     status_feedback e d lnk (mark_clickable e lnk (switch_hover lnk s))"
  by (simp add: updateLinkTracking_def)

lemma status_feedback_unknown:
  "\<not> has_alt e d \<Longrightarrow> \<not> clickable e lnk \<Longrightarrow> status_feedback e d lnk s = forget_tracking s"
  by (auto simp: status_feedback_def has_alt_def clickable_def split: option.splits list.splits)

lemma status_feedback_hover:
  "has_alt e d \<or> clickable e lnk \<Longrightarrow> fHoverLink (status_feedback e d lnk s) = fHoverLink s"
  by (auto simp: status_feedback_def has_alt_def clickable_def showMessage_def
      split: option.splits list.splits)

lemma status_feedback_clickable:
  "is_clickable_link e l \<Longrightarrow>
   status_feedback e d (Some l) s = showMessage (feedback_text e d l) s"
  by (simp add: status_feedback_def feedback_text_def split: option.split list.split)

lemma mark_clickable_not: "\<not> clickable e lnk \<Longrightarrow> mark_clickable e lnk s = s"
  by (auto simp: mark_clickable_def clickable_def split: option.splits)

lemma mark_clickable_hover: "fHoverLink (mark_clickable e lnk s) = fHoverLink s"
  by (simp add: mark_clickable_def mutator_defs Let_def split: option.split)

lemma switch_hover_hover: "fHoverLink (switch_hover lnk s) = lnk"
  by (simp add: switch_hover_def)

lemma forget_tracking_idem: "forget_tracking (forget_tracking s) = forget_tracking s"
  by (simp add: forget_tracking_def mutator_defs Let_def split: option.split)

lemma forget_tracking_hover: "fHoverLink (forget_tracking s) = None"
  by (simp add: forget_tracking_def mutator_defs Let_def split: option.split)

lemma forget_tracking_again:
  "forget_tracking (switch_hover (Some l) (forget_tracking (switch_hover (Some l) s))) =
   (forget_tracking (switch_hover (Some l) s))
     \<lparr> set_clicked_calls :=
         set_clicked_calls (forget_tracking (switch_hover (Some l) s)) @
           [(l, CHtmlDispLink_none)] \<rparr>"
  by (simp add: forget_tracking_def switch_hover_def mutator_defs Let_def split: option.split)

lemma forget_tracking_switch_mode:
  "clicked (forget_tracking (switch_hover (Some l) s)) l = CHtmlDispLink_none"
  by (simp add: forget_tracking_def switch_hover_def mutator_defs Let_def split: option.split)

lemma link_at_SomeD:
  "link_at e p = Some l \<Longrightarrow>
   \<exists>d. find_by_pos e (docPos e p) = Some d \<and> get_link e d (docPos e p) = Some l"
  by (simp add: link_at_def split: option.splits)

subsection \<open>The invariant of the link store\<close>

lemma link_inv_init: "link_inv init_state"
  by (simp add: inv_defs init_state_def)

lemma link_inv_forget: "link_inv s \<Longrightarrow> link_inv (forget_tracking s)"
  by (auto simp: inv_defs forget_tracking_def mutator_defs Let_def split: option.splits)

lemma link_inv_switch_mark:
  "link_inv s \<Longrightarrow> link_inv (mark_clickable e lnk (switch_hover lnk s))"
  by (auto simp: inv_defs mark_clickable_def switch_hover_def mutator_defs Let_def
      split: option.splits)

lemma link_inv_status: "link_inv s \<Longrightarrow> link_inv (status_feedback e d lnk s)"
  using link_inv_forget [of s]
  by (auto simp: status_feedback_def split: option.splits list.splits)
     (auto simp: inv_defs showMessage_def)

lemma link_inv_update: "link_inv s \<Longrightarrow> link_inv (updateLinkTracking e p s)"
  using link_inv_forget [of s] link_inv_status [OF link_inv_switch_mark, of s e]
  by (auto simp: updateLinkTracking_def Let_def split: option.splits)
     (auto simp: inv_defs mutator_defs)

lemma link_inv_invalidate: "link_inv s \<Longrightarrow> link_inv (fInvalidateLinkTracking s)"
  by (auto simp: inv_defs fInvalidateLinkTracking_def mutator_defs Let_def split: option.splits)

lemma link_inv_press: "link_inv s \<Longrightarrow> link_inv (mousePressEvent e b p s)"
  by (auto simp: inv_defs mousePressEvent_def mutator_defs split: option.splits)
     (metis link_mode.distinct(4))+

lemma link_inv_release: "link_inv s \<Longrightarrow> link_inv (mouseReleaseEvent e s)"
  by (auto simp: inv_defs mouseReleaseEvent_def mutator_defs Let_def split: option.splits)

lemma link_inv_move: "link_inv s \<Longrightarrow> link_inv (mouseMoveEvent e b p s)"
  using link_inv_update [of s e p]
  by (auto simp: mouseMoveEvent_def) (auto simp: inv_defs mutator_defs)

lemma link_inv_step: "link_inv s \<Longrightarrow> link_inv (step e ev s)"
  by (cases ev)
     (simp_all add: link_inv_move link_inv_press link_inv_release link_inv_invalidate
        leaveEvent_def)

lemma link_inv_run: "link_inv s \<Longrightarrow> link_inv (run evs s)"
proof (induction evs arbitrary: s)
  case Nil
  then show ?case by simp
next
  case (Cons a evs)
  then show ?case by (cases a) (simp add: link_inv_step)
qed

lemma link_inv_reachable: "link_inv (run evs init_state)"
  by (simp add: link_inv_run link_inv_init)

lemmas handler_defs = mouseMoveEvent_def mousePressEvent_def mouseReleaseEvent_def
  leaveEvent_def fInvalidateLinkTracking_def updateLinkTracking_def switch_hover_def
  mark_clickable_def status_feedback_def forget_tracking_def docPos_def isNull_def

subsection \<open>The sample runs\<close>

lemma armed_state:
  "run (armed_run hl) init_state =
     \<lparr> fHoverLink = Some 1, fClickedLink = Some 1, fInSelectMode = False,
       fSelectOrigin = (0, 0),
       clicked = (\<lambda>_. CHtmlDispLink_none)(1 := CHtmlDispLink_clicked),
       cursor = PointingHandCursor, status_msg = ''north'', sel_ranges = [],
       commands = [],
       set_clicked_calls =
         (if hl then [(1, CHtmlDispLink_hover), (1, CHtmlDispLink_clicked)]
          else [(1, CHtmlDispLink_clicked)]) \<rparr>"
  by (simp add: armed_run_def init_state_def sample_env_def handler_defs mutator_defs Let_def)

lemma hover_state:
  "run hover_run init_state =
     \<lparr> fHoverLink = Some 1, fClickedLink = None, fInSelectMode = False,
       fSelectOrigin = (0, 0),
       clicked = (\<lambda>_. CHtmlDispLink_none)(1 := CHtmlDispLink_hover),
       cursor = PointingHandCursor, status_msg = ''north'', sel_ranges = [],
       commands = [], set_clicked_calls = [(1, CHtmlDispLink_hover)] \<rparr>"
  by (simp add: hover_run_def init_state_def sample_env_def handler_defs mutator_defs Let_def)

subsection \<open>Release on the armed link\<close>

text \<open>
  What the release does for every setting: outside selection mode, with a click-tracked
  link that is the hovered link, exactly one command is sent, the link's URL with its
  append flag and with auto-enter unless the link suppresses it, the click-tracked link is
  forgotten, and with link highlighting on the link goes to mode \<open>hover\<close>.
\<close>

lemma release_dispatches:
  assumes "\<not> fInSelectMode s" and "fClickedLink s = Some a" and "fHoverLink s = Some a"
  shows "commands (mouseReleaseEvent e s) = commands s @ [link_command e a] \<and>
         fClickedLink (mouseReleaseEvent e s) = None \<and>
         (highlightLinks e \<longrightarrow>
            clicked (mouseReleaseEvent e s) = (clicked s)(a := CHtmlDispLink_hover))"
  using assms by (simp add: mouseReleaseEvent_def link_command_def mutator_defs Let_def)

text \<open>
  C1 fails on the code when link highlighting is off. On the sample document the pointer
  moves onto link 1 and the button goes down: line 126 puts link 1 in mode \<open>clicked\<close>,
  whatever the highlight setting. The release sends ``north'' once, with auto-enter, and
  forgets the click-tracked link, but lines 152-154, under the comment ``Put it back in
  hovering mode'', call \<open>set_clicked\<close> only when highlighting is on and have no else
  branch: the release makes no call and link 1 stays in mode \<open>clicked\<close>, where C1 says
  \<open>none\<close>.
\<close>

theorem release_highlight_off_stays_clicked:
  "fClickedLink (run (armed_run False) init_state) = Some 1 \<and>
   fHoverLink (run (armed_run False) init_state) = Some 1 \<and>
   \<not> fInSelectMode (run (armed_run False) init_state) \<and>
   \<not> highlightLinks (sample_env True False) \<and>
   commands (mouseReleaseEvent (sample_env True False) (run (armed_run False) init_state)) =
     [\<lparr> cmd_text = ''north'', cmd_len = 5, cmd_append = False, cmd_enter = True \<rparr>] \<and>
   fClickedLink (mouseReleaseEvent (sample_env True False)
     (run (armed_run False) init_state)) = None \<and>
   set_clicked_calls (mouseReleaseEvent (sample_env True False)
     (run (armed_run False) init_state)) = [(1, CHtmlDispLink_clicked)] \<and>
   clicked (mouseReleaseEvent (sample_env True False) (run (armed_run False) init_state)) 1 =
     CHtmlDispLink_clicked"
  by (simp add: armed_state sample_env_def mouseReleaseEvent_def mutator_defs Let_def)

subsection \<open>At most one highlighted link\<close>

text \<open>
  C2. In every state a sequence of pointer events reaches from the initial state, two
  links in mode \<open>clicked\<close> are the same link, two links in mode \<open>hover\<close> are the same
  link, and no link is in mode \<open>clicked\<close> while a link (the same or another) is in mode
  \<open>hover\<close>. The layout and the settings may differ from one event to the next.
\<close>

theorem modes_at_most_one:
  "(clicked (run evs init_state) l = CHtmlDispLink_clicked \<and>
    clicked (run evs init_state) l' = CHtmlDispLink_clicked \<longrightarrow> l = l') \<and>
   (clicked (run evs init_state) l = CHtmlDispLink_hover \<and>
    clicked (run evs init_state) l' = CHtmlDispLink_hover \<longrightarrow> l = l') \<and>
   \<not> (clicked (run evs init_state) l = CHtmlDispLink_clicked \<and>
      clicked (run evs init_state) l' = CHtmlDispLink_hover)"
proof -
  have "tracked_only (run evs init_state)"
    using link_inv_reachable [of evs] by (simp add: link_inv_def)
  then have one: "\<And>k. clicked (run evs init_state) k \<noteq> CHtmlDispLink_none \<Longrightarrow>
      fHoverLink (run evs init_state) = Some k"
    by (simp add: tracked_only_def)
  show ?thesis
  proof (intro conjI impI notI)
    assume "clicked (run evs init_state) l = CHtmlDispLink_clicked \<and>
            clicked (run evs init_state) l' = CHtmlDispLink_clicked"
    then show "l = l'" using one [of l] one [of l'] by simp
  next
    assume "clicked (run evs init_state) l = CHtmlDispLink_hover \<and>
            clicked (run evs init_state) l' = CHtmlDispLink_hover"
    then show "l = l'" using one [of l] one [of l'] by simp
  next
    assume "clicked (run evs init_state) l = CHtmlDispLink_clicked \<and>
            clicked (run evs init_state) l' = CHtmlDispLink_hover"
    then show False using one [of l] one [of l'] by auto
  qed
qed

text \<open>
  On the sample document: with link 1 armed it is in mode \<open>clicked\<close> and link 2 is not;
  with link 1 hovered it is in mode \<open>hover\<close> and link 2 is not.
\<close>

theorem modes_at_most_one_witness:
  "clicked (run (armed_run True) init_state) 1 = CHtmlDispLink_clicked \<and>
   clicked (run (armed_run True) init_state) 2 \<noteq> CHtmlDispLink_clicked \<and>
   clicked (run hover_run init_state) 1 = CHtmlDispLink_hover \<and>
   clicked (run hover_run init_state) 2 \<noteq> CHtmlDispLink_hover"
  using modes_at_most_one [of "armed_run True" 1 1] modes_at_most_one [of "armed_run True" 1 2]
    modes_at_most_one [of hover_run 1 1] modes_at_most_one [of hover_run 1 2]
  by (simp add: armed_state hover_state)

subsection \<open>ALT text of an object without a link\<close>

text \<open>
  C3 fails on the code. From the initial state, with link following on, the pointer
  moves onto the picture of the sample document, which has the ALT text ``map'' and no
  link: \<open>get_link\<close> gives null, the hovered link is null, so the test at line 199 holds
  and the handler returns before it reaches the ALT text at line 223. The status bar
  stays empty.
\<close>

theorem alt_text_not_shown_from_idle:
  "enableLinks (sample_env True True) \<and>
   find_by_pos (sample_env True True) (30, 30) = Some 3 \<and>
   get_alt_text (sample_env True True) 3 = Some ''map'' \<and>
   get_link (sample_env True True) 3 (30, 30) = None \<and>
   \<not> fInSelectMode init_state \<and>
   status_msg (mouseMoveEvent (sample_env True True) False (30, 30) init_state) = []"
  by (simp add: init_state_def sample_env_def handler_defs mutator_defs Let_def)

subsection \<open>Selecting text by dragging\<close>

lemma drag_moves:
  "fInSelectMode s \<Longrightarrow>
   run (map (\<lambda>q. (e, Move True q)) qs) s =
     s\<lparr> sel_ranges := sel_ranges s @
          map (\<lambda>q. (find_textofs_by_pos e (fSelectOrigin s), find_textofs_by_pos e q)) qs \<rparr>"
proof (induction qs arbitrary: s)
  case Nil
  then show ?case by simp
next
  case (Cons q qs)
  let ?s' = "mouseMoveEvent e True q s"
  from Cons.prems have s': "?s' = set_sel_range (find_textofs_by_pos e (fSelectOrigin s))
      (find_textofs_by_pos e q) s"
    by (simp add: mouseMoveEvent_def)
  then have "fInSelectMode ?s'" using Cons.prems by (simp add: set_sel_range_def)
  from Cons.IH [OF this] show ?case
    by (simp add: s' set_sel_range_def)
qed

text \<open>
  C4. A press with the primary button while no link is hovered and the widget is not
  selecting puts it in selection mode with the press position as origin and sends the
  range (max offset, max offset) to the formatter. Each of the moves \<open>qs\<close> that follow
  with the button down sends (offset at the origin, offset at the position of the move),
  in order, and the widget stays in selection mode. The release ends selection mode and
  sends no command and no range.
\<close>

theorem select_by_drag:
  assumes "fHoverLink s = None" and "\<not> fInSelectMode s"
  shows "let s1 = mousePressEvent e True p s;
             s2 = run (map (\<lambda>q. (e, Move True q)) qs) s1;
             s3 = mouseReleaseEvent e s2
         in fInSelectMode s1 \<and> fSelectOrigin s1 = p \<and>
            sel_ranges s1 = sel_ranges s @ [(get_text_ofs_max e, get_text_ofs_max e)] \<and>
            fInSelectMode s2 \<and>
            sel_ranges s2 = sel_ranges s1 @
              map (\<lambda>q. (find_textofs_by_pos e p, find_textofs_by_pos e q)) qs \<and>
            \<not> fInSelectMode s3 \<and> commands s3 = commands s \<and> sel_ranges s3 = sel_ranges s2"
proof -
  let ?s1 = "mousePressEvent e True p s"
  have s1: "?s1 = set_sel_range (get_text_ofs_max e) (get_text_ofs_max e)
                    (s\<lparr> fInSelectMode := True, fSelectOrigin := p \<rparr>)"
    using assms by (simp add: mousePressEvent_def)
  then have sel: "fInSelectMode ?s1" by (simp add: set_sel_range_def)
  show ?thesis
    unfolding Let_def drag_moves [OF sel]
    by (simp add: s1 set_sel_range_def mouseReleaseEvent_def)
qed

text \<open>
  On the sample document: a press at (40,40) in the initial state and moves to (45,40)
  and (50,41) send the ranges (100,100), (40,45), (40,50); the release sends no command.
\<close>

theorem select_by_drag_witness:
  "fHoverLink init_state = None \<and> \<not> fInSelectMode init_state \<and>
   sel_ranges (run (map (\<lambda>q. (sample_env True True, Move True q)) [(45, 40), (50, 41)])
     (mousePressEvent (sample_env True True) True (40, 40) init_state)) =
     [(100, 100), (40, 45), (40, 50)] \<and>
   commands (mouseReleaseEvent (sample_env True True)
     (run (map (\<lambda>q. (sample_env True True, Move True q)) [(45, 40), (50, 41)])
       (mousePressEvent (sample_env True True) True (40, 40) init_state))) = []"
proof -
  have h1: "fHoverLink init_state = None" and h2: "\<not> fInSelectMode init_state"
    by (simp_all add: init_state_def)
  show ?thesis
    using select_by_drag [OF h1 h2, of "sample_env True True" "(40, 40)" "[(45, 40), (50, 41)]"]
      h1 h2
    by (simp add: Let_def init_state_def sample_env_def)
qed

subsection \<open>Refreshing twice\<close>

lemma repeated_calls_none:
  "find_by_pos e (docPos e p) = None \<Longrightarrow> repeated_calls e p s = []"
  by (simp add: repeated_calls_def)

lemma repeated_calls_obj:
  "find_by_pos e (docPos e p) = Some d \<Longrightarrow>
   repeated_calls e p s =
     (case get_link e d (docPos e p) of
        None \<Rightarrow> []
      | Some l \<Rightarrow>
          if enableLinks e \<and> \<not> has_alt e d \<and> \<not> is_clickable_link e l \<and>
             fHoverLink s \<noteq> Some l
          then [(l, CHtmlDispLink_none)]
          else [])"
  by (simp add: repeated_calls_def)

lemma updateLinkTracking_twice:
  "updateLinkTracking e p (updateLinkTracking e p s) =
   (updateLinkTracking e p s)
     \<lparr> set_clicked_calls :=
         set_clicked_calls (updateLinkTracking e p s) @ repeated_calls e p s \<rparr>"
proof (cases "find_by_pos e (docPos e p)")
  case None
  then show ?thesis
    by (simp add: ult_no_object repeated_calls_none mutator_defs split: option.split)
next
  case (Some d)
  note obj = Some
  show ?thesis
  proof (cases "enableLinks e")
    case False
    with obj show ?thesis
      by (simp add: ult_links_disabled forget_tracking_idem repeated_calls_obj
          split: option.split)
  next
    case True
    note en = True
    define lnk where "lnk = get_link e d (docPos e p)"
    show ?thesis
    proof (cases "lnk = fHoverLink s")
      case True
      with obj en show ?thesis
        by (simp add: ult_same_link lnk_def repeated_calls_obj split: option.split)
    next
      case False
      have r: "updateLinkTracking e p s =
               status_feedback e d lnk (mark_clickable e lnk (switch_hover lnk s))"
        using ult_new_link [OF obj en _ False] by (simp add: lnk_def)
      show ?thesis
      proof (cases "has_alt e d \<or> clickable e lnk")
        case True
        then have "fHoverLink (updateLinkTracking e p s) = lnk"
          by (simp add: r status_feedback_hover mark_clickable_hover switch_hover_hover)
        with obj en have "updateLinkTracking e p (updateLinkTracking e p s) =
            updateLinkTracking e p s"
          by (simp add: ult_same_link lnk_def)
        moreover from True obj have "repeated_calls e p s = []"
          by (auto simp: repeated_calls_obj clickable_def lnk_def split: option.splits)
        ultimately show ?thesis by simp
      next
        case False
        then have r': "updateLinkTracking e p s = forget_tracking (switch_hover lnk s)"
          by (simp add: r status_feedback_unknown mark_clickable_not)
        show ?thesis
        proof (cases lnk)
          case None
          then have "get_link e d (docPos e p) = fHoverLink (updateLinkTracking e p s)"
            by (simp add: r' forget_tracking_hover lnk_def)
          with obj en have "updateLinkTracking e p (updateLinkTracking e p s) =
              updateLinkTracking e p s"
            by (simp add: ult_same_link)
          moreover from None obj have "repeated_calls e p s = []"
            by (simp add: repeated_calls_obj lnk_def)
          ultimately show ?thesis by simp
        next
          case (Some l)
          then have ne: "lnk \<noteq> fHoverLink (updateLinkTracking e p s)"
            by (simp add: r' forget_tracking_hover)
          have rc: "repeated_calls e p s = [(l, CHtmlDispLink_none)]"
            using obj en False Some \<open>lnk \<noteq> fHoverLink s\<close>
            by (auto simp: repeated_calls_obj clickable_def lnk_def)
          have "updateLinkTracking e p (updateLinkTracking e p s) =
                status_feedback e d lnk (mark_clickable e lnk
                  (switch_hover lnk (updateLinkTracking e p s)))"
            using ult_new_link [OF obj en _ ne] by (simp add: lnk_def)
          also have "\<dots> = forget_tracking (switch_hover lnk (updateLinkTracking e p s))"
            using False by (simp add: status_feedback_unknown mark_clickable_not)
          finally show ?thesis
            by (simp add: r' Some rc forget_tracking_again)
        qed
      qed
    qed
  qed
qed

lemma repeated_calls_redundant:
  assumes "c \<in> set (repeated_calls e p s)"
  shows "snd c = CHtmlDispLink_none \<and>
         clicked (updateLinkTracking e p s) (fst c) = CHtmlDispLink_none"
proof (cases "find_by_pos e (docPos e p)")
  case None
  with assms show ?thesis by (simp add: repeated_calls_none)
next
  case (Some d)
  note obj = Some
  show ?thesis
  proof (cases "get_link e d (docPos e p)")
    case None
    with assms obj show ?thesis by (simp add: repeated_calls_obj)
  next
    case (Some l)
    with assms obj have l: "c = (l, CHtmlDispLink_none)" "enableLinks e" "\<not> has_alt e d"
        "\<not> is_clickable_link e l" "fHoverLink s \<noteq> Some l"
      by (simp_all add: repeated_calls_obj split: if_splits)
    from l(4) have "\<not> clickable e (Some l)" by (simp add: clickable_def)
    with ult_new_link [OF obj l(2) Some] l(3,5)
    have "updateLinkTracking e p s = forget_tracking (switch_hover (Some l) s)"
      by (simp add: status_feedback_unknown mark_clickable_not)
    with l(1) show ?thesis by (simp add: forget_tracking_switch_mode)
  qed
qed

text \<open>
  C8, as the code has it. For any state and any position, a second link-tracking refresh
  at the same position, in the same environment and with nothing in between, leaves the
  visual mode of every link, and every other part of the state, as the first refresh left
  it. The second refresh calls \<open>set_clicked\<close> exactly for \<open>repeated_calls\<close>: not at all,
  except over a link that is not clickable, on an object without ALT text, that was not
  the hovered link before the first refresh; there it repeats one call, which sets that
  link to \<open>none\<close> while it already is in mode \<open>none\<close>.
\<close>

theorem refresh_twice_modes:
  "clicked (updateLinkTracking e p (updateLinkTracking e p s)) =
     clicked (updateLinkTracking e p s) \<and>
   updateLinkTracking e p (updateLinkTracking e p s) =
     (updateLinkTracking e p s)
       \<lparr> set_clicked_calls :=
           set_clicked_calls (updateLinkTracking e p (updateLinkTracking e p s)) \<rparr> \<and>
   set_clicked_calls (updateLinkTracking e p (updateLinkTracking e p s)) =
     set_clicked_calls (updateLinkTracking e p s) @ repeated_calls e p s \<and>
   (\<forall>c \<in> set (repeated_calls e p s).
      snd c = CHtmlDispLink_none \<and>
      clicked (updateLinkTracking e p s) (fst c) = CHtmlDispLink_none) \<and>
   (clickable e (link_at e p) \<or> link_at e p = None \<or> \<not> enableLinks e \<longrightarrow>
      repeated_calls e p s = [])"
proof -
  have twice: "updateLinkTracking e p (updateLinkTracking e p s) =
      (updateLinkTracking e p s)
        \<lparr> set_clicked_calls :=
            set_clicked_calls (updateLinkTracking e p s) @ repeated_calls e p s \<rparr>"
    by (rule updateLinkTracking_twice)
  have calls: "set_clicked_calls (updateLinkTracking e p (updateLinkTracking e p s)) =
      set_clicked_calls (updateLinkTracking e p s) @ repeated_calls e p s"
    by (subst twice) simp
  have modes: "clicked (updateLinkTracking e p (updateLinkTracking e p s)) =
      clicked (updateLinkTracking e p s)"
    by (subst twice) simp
  have rest: "updateLinkTracking e p (updateLinkTracking e p s) =
      (updateLinkTracking e p s)
        \<lparr> set_clicked_calls :=
            set_clicked_calls (updateLinkTracking e p (updateLinkTracking e p s)) \<rparr>"
    unfolding calls by (rule twice)
  have none: "clickable e (link_at e p) \<or> link_at e p = None \<or> \<not> enableLinks e \<longrightarrow>
      repeated_calls e p s = []"
    by (auto simp: repeated_calls_def link_at_def clickable_def split: option.splits)
  from modes rest calls none repeated_calls_redundant [of _ e p s] show ?thesis
    by blast
qed

text \<open>
  On the document with the anchor, from the initial state: the first refresh over the
  anchor calls \<open>set_clicked\<close> once, the second repeats that call, and link 3 is in mode
  \<open>none\<close> after each.
\<close>

theorem refresh_twice_modes_witness:
  "repeated_calls anchor_env (60, 60) init_state = [(3, CHtmlDispLink_none)] \<and>
   clicked (updateLinkTracking anchor_env (60, 60) init_state) 3 = CHtmlDispLink_none \<and>
   clicked (updateLinkTracking anchor_env (60, 60)
     (updateLinkTracking anchor_env (60, 60) init_state)) 3 = CHtmlDispLink_none \<and>
   set_clicked_calls (updateLinkTracking anchor_env (60, 60)
     (updateLinkTracking anchor_env (60, 60) init_state)) =
     set_clicked_calls (updateLinkTracking anchor_env (60, 60) init_state) @
       [(3, CHtmlDispLink_none)]"
proof -
  have rc: "repeated_calls anchor_env (60, 60) init_state = [(3, CHtmlDispLink_none)]"
    by (simp add: repeated_calls_def anchor_env_def sample_env_def init_state_def has_alt_def
        docPos_def isNull_def)
  then have "(3, CHtmlDispLink_none) \<in> set (repeated_calls anchor_env (60, 60) init_state)"
    by simp
  with refresh_twice_modes [of anchor_env "(60, 60)" init_state] rc show ?thesis
    by (metis fst_conv)
qed

text \<open>
  C8 as the spec words it (the second refresh makes no visual-mode mutation) fails at
  the level of the calls: over the anchor, from the initial state, the first refresh makes
  the call \<open>set_clicked(link 3, none)\<close> and the second refresh makes it again (lines 209
  and 246-248).
\<close>

theorem refresh_twice_call_counterexample:
  "set_clicked_calls (updateLinkTracking anchor_env (60, 60) init_state) =
     [(3, CHtmlDispLink_none)] \<and>
   set_clicked_calls (updateLinkTracking anchor_env (60, 60)
     (updateLinkTracking anchor_env (60, 60) init_state)) =
     [(3, CHtmlDispLink_none), (3, CHtmlDispLink_none)]"
  by (simp add: anchor_env_def sample_env_def init_state_def handler_defs mutator_defs Let_def)

subsection \<open>What a refresh keeps and where it lands\<close>

lemma forget_tracking_frame:
  "fClickedLink (forget_tracking s) = fClickedLink s \<and>
   fInSelectMode (forget_tracking s) = fInSelectMode s \<and>
   commands (forget_tracking s) = commands s"
  by (simp add: forget_tracking_def mutator_defs Let_def split: option.split)

lemma switch_hover_frame:
  "fClickedLink (switch_hover lnk s) = fClickedLink s \<and>
   fInSelectMode (switch_hover lnk s) = fInSelectMode s \<and>
   commands (switch_hover lnk s) = commands s"
  by (simp add: switch_hover_def mutator_defs split: option.split)

lemma mark_clickable_frame:
  "fClickedLink (mark_clickable e lnk s) = fClickedLink s \<and>
   fInSelectMode (mark_clickable e lnk s) = fInSelectMode s \<and>
   commands (mark_clickable e lnk s) = commands s"
  by (simp add: mark_clickable_def mutator_defs Let_def split: option.split)

lemma status_feedback_frame:
  "fClickedLink (status_feedback e d lnk s) = fClickedLink s \<and>
   fInSelectMode (status_feedback e d lnk s) = fInSelectMode s \<and>
   commands (status_feedback e d lnk s) = commands s"
  by (simp add: status_feedback_def forget_tracking_frame showMessage_def
      split: option.split list.split)

lemma ult_frame:
  "fClickedLink (updateLinkTracking e p s) = fClickedLink s \<and>
   fInSelectMode (updateLinkTracking e p s) = fInSelectMode s \<and>
   commands (updateLinkTracking e p s) = commands s"
  by (simp add: updateLinkTracking_def Let_def forget_tracking_frame switch_hover_frame
      mark_clickable_frame status_feedback_frame mutator_defs split: option.split)

lemma ult_onto_clickable:
  assumes "link_at e p = Some l" and "is_clickable_link e l" and "enableLinks e"
    and "fHoverLink s \<noteq> Some l"
  shows "\<exists>d. updateLinkTracking e p s =
           showMessage (feedback_text e d l)
             (mark_clickable e (Some l) (switch_hover (Some l) s))"
proof -
  from link_at_SomeD [OF assms(1)] obtain d where
    d: "find_by_pos e (docPos e p) = Some d" "get_link e d (docPos e p) = Some l"
    by blast
  have "updateLinkTracking e p s =
        status_feedback e d (Some l) (mark_clickable e (Some l) (switch_hover (Some l) s))"
    using ult_new_link [OF d(1) assms(3) d(2)] assms(4) by simp
  then show ?thesis
    by (auto simp: status_feedback_clickable [OF assms(2)])
qed

lemma ult_onto_clickable_hover:
  assumes "link_at e p = Some l" and "is_clickable_link e l" and "enableLinks e"
  shows "fHoverLink (updateLinkTracking e p s) = Some l"
proof (cases "fHoverLink s = Some l")
  case True
  from link_at_SomeD [OF assms(1)] obtain d where
    d: "find_by_pos e (docPos e p) = Some d" "get_link e d (docPos e p) = Some l"
    by blast
  with True assms(3) show ?thesis
    by (simp add: ult_same_link)
next
  case False
  from ult_onto_clickable [OF assms False] show ?thesis
    by (auto simp: showMessage_def mark_clickable_hover switch_hover_hover)
qed

lemma ult_off_link:
  assumes "fHoverLink s = Some a" and "link_at e p \<noteq> Some a"
  shows "clicked (updateLinkTracking e p s) a = CHtmlDispLink_none \<and>
         fHoverLink (updateLinkTracking e p s) \<noteq> Some a"
proof (cases "find_by_pos e (docPos e p)")
  case None
  then show ?thesis using assms(1) by (simp add: ult_no_object mutator_defs)
next
  case (Some d)
  show ?thesis
  proof (cases "enableLinks e")
    case False
    with Some assms(1) show ?thesis
      by (simp add: ult_links_disabled forget_tracking_def mutator_defs)
  next
    case True
    from Some assms(2) have ne: "get_link e d (docPos e p) \<noteq> Some a"
      by (simp add: link_at_def)
    with assms(1) have "get_link e d (docPos e p) \<noteq> fHoverLink s" by simp
    from ult_new_link [OF Some True refl this] ne assms(1) show ?thesis
      by (auto simp: status_feedback_def mark_clickable_def switch_hover_def forget_tracking_def
          mutator_defs Let_def split: option.splits list.splits)
  qed
qed

lemma ult_back_on_armed:
  assumes "link_at e p = Some a" and "is_clickable_link e a" and "enableLinks e"
    and "fHoverLink s \<noteq> Some a" and "fClickedLink s \<noteq> None"
  shows "cursor (updateLinkTracking e p s) = PointingHandCursor \<and>
         clicked (updateLinkTracking e p s) a = clicked s a"
  using ult_onto_clickable [OF assms(1-4)] assms(4,5)
  by (auto simp: mark_clickable_def switch_hover_def mutator_defs Let_def assms(2)
      split: option.splits)

subsection \<open>Press, drag off, release on a second link\<close>

text \<open>
  C5. The widget is not selecting and hovers the clickable link \<open>a\<close>, with link
  following on. After a press, a move to a position where the layout does not report
  \<open>a\<close>, a move onto a second clickable link \<open>b\<close> and a release, no command has been
  sent for either link, \<open>b\<close> is in mode \<open>hover\<close> and no link is click-tracked.
\<close>

theorem armed_then_released_on_other_link:
  assumes "\<not> fInSelectMode s" and "fHoverLink s = Some a" and "is_clickable_link e a"
    and "enableLinks e" and "link_at e p1 \<noteq> Some a"
    and "link_at e p2 = Some b" and "is_clickable_link e b" and "b \<noteq> a"
  shows "let s' = run [(e, Press l0 p0), (e, Move l1 p1), (e, Move l2 p2), (e, Release)] s
         in commands s' = commands s \<and> clicked s' b = CHtmlDispLink_hover \<and>
            fClickedLink s' = None"
proof -
  let ?s1 = "mousePressEvent e l0 p0 s"
  let ?s2 = "updateLinkTracking e p1 ?s1"
  let ?s3 = "updateLinkTracking e p2 ?s2"
  have s1: "fClickedLink ?s1 = Some a" "\<not> fInSelectMode ?s1" "commands ?s1 = commands s"
    using assms(1-4) by (simp_all add: mousePressEvent_def set_clicked_def)
  have s2: "fClickedLink ?s2 = Some a" "\<not> fInSelectMode ?s2" "commands ?s2 = commands s"
    using s1 by (simp_all add: ult_frame)
  have s3: "fClickedLink ?s3 = Some a" "\<not> fInSelectMode ?s3" "commands ?s3 = commands s"
    using s2 by (simp_all add: ult_frame)
  have h3: "fHoverLink ?s3 = Some b"
    by (rule ult_onto_clickable_hover [OF assms(6,7,4)])
  have r: "run [(e, Press l0 p0), (e, Move l1 p1), (e, Move l2 p2), (e, Release)] s =
           mouseReleaseEvent e ?s3"
    using s1(2) s2(2) by (simp add: mouseMoveEvent_def)
  show ?thesis
    unfolding Let_def r using s3 h3 assms(8)
    by (simp add: mouseReleaseEvent_def set_clicked_def)
qed

text \<open>
  On the sample document: link 1 is hovered, press, move to the plain text at (40,40),
  move onto link 2 at (20,20), release. Nothing is sent and link 2 is in mode \<open>hover\<close>.
\<close>

theorem armed_then_released_on_other_link_witness:
  "\<not> fInSelectMode (run hover_run init_state) \<and>
   fHoverLink (run hover_run init_state) = Some 1 \<and>
   link_at (sample_env True True) (40, 40) \<noteq> Some 1 \<and>
   link_at (sample_env True True) (20, 20) = Some 2 \<and>
   commands (run [(sample_env True True, Press True (10, 10)),
                  (sample_env True True, Move True (40, 40)),
                  (sample_env True True, Move True (20, 20)),
                  (sample_env True True, Release)] (run hover_run init_state)) = [] \<and>
   clicked (run [(sample_env True True, Press True (10, 10)),
                  (sample_env True True, Move True (40, 40)),
                  (sample_env True True, Move True (20, 20)),
                  (sample_env True True, Release)] (run hover_run init_state)) 2 =
     CHtmlDispLink_hover"
proof -
  have h1: "\<not> fInSelectMode (run hover_run init_state)"
    and h2: "fHoverLink (run hover_run init_state) = Some 1"
    by (simp_all add: hover_state)
  have h3: "is_clickable_link (sample_env True True) 1"
    and h4: "enableLinks (sample_env True True)"
    and h5: "link_at (sample_env True True) (40, 40) \<noteq> Some 1"
    and h6: "link_at (sample_env True True) (20, 20) = Some 2"
    and h7: "is_clickable_link (sample_env True True) 2"
    and h8: "(2::nat) \<noteq> 1"
    by (simp_all add: sample_env_def link_at_def docPos_def isNull_def)
  show ?thesis
    using armed_then_released_on_other_link [OF h1 h2 h3 h4 h5 h6 h7 h8, of True "(10, 10)" True True]
      h1 h2 h5 h6
    by (simp add: Let_def hover_state)
qed

subsection \<open>Moving off the armed link and back\<close>

text \<open>
  C10. A link \<open>a\<close> is armed: it is click-tracked and hovered, clickable, link following
  is on and the widget is not selecting. A move to a position where the layout does not
  report \<open>a\<close> is tracked: \<open>a\<close> goes to mode \<open>none\<close> and is no longer the hovered link,
  while it stays click-tracked. A move back onto \<open>a\<close> sets the pointing-hand cursor and
  makes \<open>a\<close> the hovered link again, but leaves it in mode \<open>none\<close>. The release then
  sends the command of \<open>a\<close>, once, and forgets the click-tracked link.
\<close>

theorem armed_link_off_and_back:
  assumes "\<not> fInSelectMode s" and "fClickedLink s = Some a" and "fHoverLink s = Some a"
    and "is_clickable_link e a" and "enableLinks e"
    and "link_at e p1 \<noteq> Some a" and "link_at e p2 = Some a"
  shows "let s1 = mouseMoveEvent e b1 p1 s;
             s2 = mouseMoveEvent e b2 p2 s1;
             s3 = mouseReleaseEvent e s2
         in clicked s1 a = CHtmlDispLink_none \<and> fHoverLink s1 \<noteq> Some a \<and>
            fClickedLink s1 = Some a \<and>
            cursor s2 = PointingHandCursor \<and> clicked s2 a = CHtmlDispLink_none \<and>
            fHoverLink s2 = Some a \<and> fClickedLink s2 = Some a \<and>
            commands s3 = commands s @ [link_command e a] \<and> fClickedLink s3 = None"
proof -
  let ?s1 = "updateLinkTracking e p1 s"
  let ?s2 = "updateLinkTracking e p2 ?s1"
  have m1: "mouseMoveEvent e b1 p1 s = ?s1"
    using assms(1) by (simp add: mouseMoveEvent_def)
  have s1: "fClickedLink ?s1 = Some a" "\<not> fInSelectMode ?s1" "commands ?s1 = commands s"
    using assms(1,2) by (simp_all add: ult_frame)
  have m2: "mouseMoveEvent e b2 p2 ?s1 = ?s2"
    using s1(2) by (simp add: mouseMoveEvent_def)
  have off: "clicked ?s1 a = CHtmlDispLink_none" "fHoverLink ?s1 \<noteq> Some a"
    using ult_off_link [OF assms(3,6)] by simp_all
  have s2: "fClickedLink ?s2 = Some a" "\<not> fInSelectMode ?s2" "commands ?s2 = commands s"
    using s1 by (simp_all add: ult_frame)
  have bk: "cursor ?s2 = PointingHandCursor" "clicked ?s2 a = CHtmlDispLink_none"
    using ult_back_on_armed [OF assms(7,4,5) off(2)] s1(1) off(1) by simp_all
  have h2: "fHoverLink ?s2 = Some a"
    by (rule ult_onto_clickable_hover [OF assms(7,4,5)])
  have rel: "commands (mouseReleaseEvent e ?s2) = commands s @ [link_command e a]"
    "fClickedLink (mouseReleaseEvent e ?s2) = None"
    using s2 h2 by (simp_all add: mouseReleaseEvent_def link_command_def mutator_defs Let_def)
  show ?thesis
    unfolding Let_def m1 m2 using s1(1) off bk h2 s2(1) rel by simp
qed

text \<open>
  On the sample document: link 1 armed, move to the plain text at (40,40), move back to
  (10,10), release. Link 1 is in mode \<open>none\<close> after each move and ``north'' is sent.
\<close>

theorem armed_link_off_and_back_witness:
  "\<not> fInSelectMode (run (armed_run True) init_state) \<and>
   fClickedLink (run (armed_run True) init_state) = Some 1 \<and>
   fHoverLink (run (armed_run True) init_state) = Some 1 \<and>
   link_at (sample_env True True) (40, 40) \<noteq> Some 1 \<and>
   link_at (sample_env True True) (10, 10) = Some 1 \<and>
   clicked (mouseMoveEvent (sample_env True True) True (40, 40)
     (run (armed_run True) init_state)) 1 = CHtmlDispLink_none \<and>
   clicked (mouseMoveEvent (sample_env True True) True (10, 10)
     (mouseMoveEvent (sample_env True True) True (40, 40)
       (run (armed_run True) init_state))) 1 = CHtmlDispLink_none \<and>
   commands (mouseReleaseEvent (sample_env True True)
     (mouseMoveEvent (sample_env True True) True (10, 10)
       (mouseMoveEvent (sample_env True True) True (40, 40)
         (run (armed_run True) init_state)))) =
     [\<lparr> cmd_text = ''north'', cmd_len = 5, cmd_append = False, cmd_enter = True \<rparr>]"
proof -
  have h1: "\<not> fInSelectMode (run (armed_run True) init_state)"
    and h2: "fClickedLink (run (armed_run True) init_state) = Some 1"
    and h3: "fHoverLink (run (armed_run True) init_state) = Some 1"
    by (simp_all add: armed_state)
  have h4: "is_clickable_link (sample_env True True) 1"
    and h5: "enableLinks (sample_env True True)"
    and h6: "link_at (sample_env True True) (40, 40) \<noteq> Some 1"
    and h7: "link_at (sample_env True True) (10, 10) = Some 1"
    by (simp_all add: sample_env_def link_at_def docPos_def isNull_def)
  show ?thesis
    using armed_link_off_and_back [OF h1 h2 h3 h4 h5 h6 h7, of True True] h1 h2 h3 h6 h7
    by (simp add: Let_def link_command_def sample_env_def armed_state)
qed

subsection \<open>Leaving the widget\<close>

lemma invalidate_refs:
  "fHoverLink (fInvalidateLinkTracking s) = None \<and>
   fClickedLink (fInvalidateLinkTracking s) = None \<and>
   cursor (fInvalidateLinkTracking s) = ArrowCursor \<and>
   status_msg (fInvalidateLinkTracking s) = [] \<and>
   fInSelectMode (fInvalidateLinkTracking s) = fInSelectMode s"
  by (simp add: fInvalidateLinkTracking_def mutator_defs Let_def split: option.split)








subsection \<open>Selection mode and link tracking\<close>

lemma selecting_step:
  assumes "fInSelectMode s \<longrightarrow> fHoverLink s = None"
    and "case ev of Move left p \<Rightarrow> \<not> fInSelectMode s \<or> left | _ \<Rightarrow> True"
  shows "fInSelectMode (step e ev s) \<longrightarrow> fHoverLink (step e ev s) = None"
proof (cases ev)
  case (Move b p)
  show ?thesis
  proof (cases "fInSelectMode s")
    case True
    with assms Move show ?thesis
      by (simp add: mouseMoveEvent_def set_sel_range_def)
  next
    case False
    with Move show ?thesis
      by (simp add: mouseMoveEvent_def ult_frame)
  qed
next
  case Leave
  then show ?thesis by (simp add: leaveEvent_def invalidate_refs)
next
  case (Press b p)
  with assms(1) show ?thesis
    by (auto simp: mousePressEvent_def mutator_defs split: option.splits)
next
  case Release
  with assms(1) show ?thesis
    by (auto simp: mouseReleaseEvent_def mutator_defs Let_def split: option.splits)
qed

lemma selecting_run:
  "(fInSelectMode s \<longrightarrow> fHoverLink s = None) \<Longrightarrow> drag_moves_held evs s \<Longrightarrow>
   fInSelectMode (run evs s) \<longrightarrow> fHoverLink (run evs s) = None"
proof (induction evs arbitrary: s)
  case Nil
  then show ?case by simp
next
  case (Cons x evs)
  obtain e ev where x: "x = (e, ev)" by (cases x)
  from Cons.prems(2) x have held: "case ev of Move left p \<Rightarrow> \<not> fInSelectMode s \<or> left | _ \<Rightarrow> True"
    and rest: "drag_moves_held evs (step e ev s)"
    by simp_all
  from Cons.IH [OF selecting_step [OF Cons.prems(1) held] rest] x show ?case by simp
qed

text \<open>
  C7, as the code has it. In every state reached from the initial state by a sequence
  of pointer events in which every move that arrives in selection mode has the primary
  button held, no link is hovered while the widget is in selection mode (so a hovered
  link means it is not selecting). Nothing is said of the click-tracked link, which can
  be held in selection mode.
\<close>

theorem no_hover_while_selecting:
  assumes "drag_moves_held evs init_state" and "fInSelectMode (run evs init_state)"
  shows "fHoverLink (run evs init_state) = None"
  using selecting_run [OF _ assms(1)] assms(2) by (simp add: init_state_def)

lemma select_drag_state:
  "run select_drag_run init_state =
     \<lparr> fHoverLink = None, fClickedLink = None, fInSelectMode = True,
       fSelectOrigin = (40, 40), clicked = (\<lambda>_. CHtmlDispLink_none),
       cursor = ArrowCursor, status_msg = [], sel_ranges = [(100, 100), (40, 10)],
       commands = [], set_clicked_calls = [] \<rparr>"
  by (simp add: select_drag_run_def init_state_def sample_env_def handler_defs mutator_defs
      Let_def)

text \<open>
  On the sample document: a press on plain text and a drag over link 1 with the button
  held leave the widget selecting, with no hovered link.
\<close>

theorem no_hover_while_selecting_witness:
  "drag_moves_held select_drag_run init_state \<and>
   fInSelectMode (run select_drag_run init_state) \<and>
   fHoverLink (run select_drag_run init_state) = None"
proof -
  have h1: "drag_moves_held select_drag_run init_state"
    by (simp add: select_drag_run_def init_state_def sample_env_def handler_defs mutator_defs
        Let_def)
  have h2: "fInSelectMode (run select_drag_run init_state)"
    by (simp add: select_drag_state)
  from no_hover_while_selecting [OF h1 h2] h1 h2 show ?thesis by simp
qed

text \<open>
  C7 as the spec words it fails. Link 1 is armed, the pointer is dragged off it and a
  second press arrives while the primary button is held: the widget is selecting and link
  1 is still click-tracked, in a run whose moves in selection mode all have the button
  held. And after a press on plain text, a move without the button onto link 1 makes it
  the hovered link while the widget is selecting.
\<close>

theorem selecting_with_links_counterexample:
  "drag_moves_held select_armed_run init_state \<and>
   fInSelectMode (run select_armed_run init_state) \<and>
   fClickedLink (run select_armed_run init_state) = Some 1 \<and>
   fInSelectMode (run select_hover_run init_state) \<and>
   fHoverLink (run select_hover_run init_state) = Some 1"
  by (simp add: select_armed_run_def select_hover_run_def init_state_def sample_env_def
      handler_defs mutator_defs Let_def)

subsection \<open>Link following switched off\<close>









end
